theory Spec2Isabelle
  imports Complex_Main "HOL-Library.Log_Nat" "HOL-Library.Sublist"
begin

section \<open>Brown-dwarf candidate selection over the 2MASS/SDSS cross-match\<close>

text \<open>
  The notebook \<^verbatim>\<open>Discovery_of_Brown_Dwarfs_mining_the_2MASS_and_SDSS_databases.ipynb\<close>
  fetches two catalogues, lets the CDS XMatch service join them, projects the joined table
  to fifteen columns and selects brown-dwarf candidates:
  \<^verbatim>\<open>
  sdss_mass = sdss_mass['2MASS', 'RAJ2000', 'DEJ2000', 'Jmag', 'Hmag', 'Kmag',
                        'SDSS9', 'RAdeg', 'DEdeg', 'umag', 'gmag', 'rmag',
                        'imag', 'zmag', 'cl']
  print('We are currently working with {} sources'.format(len(sdss_mass)))

  sdss_mass['J-H'] = sdss_mass['Jmag'] - sdss_mass['Hmag']
  sdss_mass['H-K'] = sdss_mass['Hmag'] - sdss_mass['Kmag']
  index_bd = (sdss_mass['umag'] > 22.0) & (sdss_mass['gmag'] > 22.2) & \
      (sdss_mass['J-H'] < 0.3) & (sdss_mass['H-K'] < 0.3)
  candidates = sdss_mass[index_bd]
  print('We have {} candidates for Brown Dwarfs'.format(len(candidates)))
  \<close>
  The table is an astropy \<^verbatim>\<open>Table\<close>: an ordered collection of named columns of one
  length. The operations the two cells use (column lookup, projection by a tuple of
  names, element-wise \<^verbatim>\<open>-\<close>, \<^verbatim>\<open>>\<close>, \<^verbatim>\<open><\<close>, \<^verbatim>\<open>&\<close>, column assignment and selection by a
  boolean array) are modelled below, column by column as the code runs them, with each
  exception as an error value.
\<close>

subsection \<open>Python floats\<close>

text \<open>
  A finite binary64 value is a rational number. Subtraction and decimal literals round
  to the nearest binary64 value, ties to the even significand. NaN, the infinities and
  the subnormal and overflow ranges are not modelled: magnitudes are finite numbers of
  ordinary size. Order comparisons of finite values are exact.
\<close>

definition round_half_even :: "rat \<Rightarrow> int" where
  "round_half_even x =
     (let f = \<lfloor>x\<rfloor>; d = x - of_int f
      in if d < 1/2 then f else if 1/2 < d then f + 1 else if even f then f else f + 1)"

definition binade :: "rat \<Rightarrow> int" where
  \<comment> \<open>the exponent \<open>e\<close> with \<open>2^e \<le> |x| < 2^(e+1)\<close>, for \<open>x \<noteq> 0\<close>\<close>
  "binade x = (case quotient_of \<bar>x\<bar> of (p, q) \<Rightarrow>
      (let d = bitlen p - bitlen q
       in if of_int p < of_int q * (2::rat) powi d then d - 1 else d))"

definition f64 :: "rat \<Rightarrow> rat" where
  \<comment> \<open>rounding to 53 significant bits\<close>
  "f64 x = (if x = 0 then 0
            else let u = 2 powi (binade x - 52)
                 in of_int (round_half_even (x / u)) * u)"

definition py_sub :: "rat \<Rightarrow> rat \<Rightarrow> rat" where
  "py_sub x y = f64 (x - y)"

definition lit_22_0 :: rat where "lit_22_0 = f64 22"
definition lit_22_2 :: rat where "lit_22_2 = f64 (222 / 10)"
definition lit_0_3 :: rat where "lit_0_3 = f64 (3 / 10)"

subsection \<open>Tables, columns and exceptions\<close>

datatype error = KeyError string | TypeError | ValueError | IndexError

definition and_then :: "error + 'a \<Rightarrow> ('a \<Rightarrow> error + 'b) \<Rightarrow> error + 'b" where
  "and_then m f = (case m of Inl e \<Rightarrow> Inl e | Inr x \<Rightarrow> f x)"

text \<open>
  A column is a homogeneous array: numbers (the magnitudes, coordinates and the class
  code) or strings (the two catalogue identifiers). Every entry is present: missing
  (masked) entries are not modelled, since the notebook does not handle them itself and
  what the library does with them is not in the source.
\<close>

datatype column = NumCol "rat list" | StrCol "string list"

datatype cell = Num rat | Str string

fun cells :: "column \<Rightarrow> cell list" where
  "cells (NumCol xs) = map Num xs"
| "cells (StrCol ss) = map Str ss"

fun col_len :: "column \<Rightarrow> nat" where
  "col_len (NumCol xs) = length xs"
| "col_len (StrCol ss) = length ss"

type_synonym table = "(string \<times> column) list"

definition len_table :: "table \<Rightarrow> nat" where
  \<comment> \<open>\<^verbatim>\<open>len(t)\<close>: the number of rows\<close>
  "len_table t = (case t of [] \<Rightarrow> 0 | (n, c) # _ \<Rightarrow> col_len c)"

definition colnames :: "table \<Rightarrow> string list" where
  "colnames t = map fst t"

definition wf_table :: "table \<Rightarrow> bool" where
  \<comment> \<open>what every \<^verbatim>\<open>Table\<close> object satisfies: distinct names, columns of one length\<close>
  "wf_table t = (distinct (colnames t) \<and> list_all (\<lambda>(n, c). col_len c = len_table t) t)"

definition getitem :: "table \<Rightarrow> string \<Rightarrow> error + column" where
  \<comment> \<open>\<^verbatim>\<open>t['name']\<close>\<close>
  "getitem t name = (case map_of t name of None \<Rightarrow> Inl (KeyError name) | Some c \<Rightarrow> Inr c)"

fun getitem_names :: "table \<Rightarrow> string list \<Rightarrow> error + table" where
  \<comment> \<open>\<^verbatim>\<open>t['a', 'b', ...]\<close>: the named columns, in the order asked for\<close>
  "getitem_names t [] = Inr []"
| "getitem_names t (n # ns) =
     and_then (getitem t n) (\<lambda>c.
     and_then (getitem_names t ns) (\<lambda>r. Inr ((n, c) # r)))"

fun col_sub :: "column \<Rightarrow> column \<Rightarrow> error + column" where
  \<comment> \<open>\<^verbatim>\<open>a - b\<close>, element by element; columns of one table have one length, so numpy's
      broadcasting of a length-one operand never applies here\<close>
  "col_sub (NumCol xs) (NumCol ys) =
     (if length xs = length ys then Inr (NumCol (map2 py_sub xs ys)) else Inl ValueError)"
| "col_sub _ _ = Inl TypeError"

fun col_gt :: "column \<Rightarrow> rat \<Rightarrow> error + bool list" where
  \<comment> \<open>\<^verbatim>\<open>a > x\<close>\<close>
  "col_gt (NumCol xs) x = Inr (map (\<lambda>v. x < v) xs)"
| "col_gt (StrCol _) x = Inl TypeError"

fun col_lt :: "column \<Rightarrow> rat \<Rightarrow> error + bool list" where
  \<comment> \<open>\<^verbatim>\<open>a < x\<close>\<close>
  "col_lt (NumCol xs) x = Inr (map (\<lambda>v. v < x) xs)"
| "col_lt (StrCol _) x = Inl TypeError"

definition mask_and :: "bool list \<Rightarrow> bool list \<Rightarrow> error + bool list" where
  \<comment> \<open>\<^verbatim>\<open>a & b\<close> on boolean arrays\<close>
  "mask_and a b =
     (if length a = length b then Inr (map2 (\<and>) a b) else Inl ValueError)"

definition put_col :: "(string \<times> 'a) list \<Rightarrow> string \<Rightarrow> 'a \<Rightarrow> (string \<times> 'a) list" where
  \<comment> \<open>an existing column is replaced where it stands, a new one is added last\<close>
  "put_col t name col =
     (if name \<in> set (map fst t)
      then map (\<lambda>(n, c). if n = name then (n, col) else (n, c)) t
      else t @ [(name, col)])"

definition setitem :: "table \<Rightarrow> string \<Rightarrow> column \<Rightarrow> error + table" where
  \<comment> \<open>\<^verbatim>\<open>t['name'] = col\<close>\<close>
  "setitem t name col =
     (if t \<noteq> [] \<and> col_len col \<noteq> len_table t then Inl ValueError
      else Inr (put_col t name col))"

definition select :: "'a list \<Rightarrow> bool list \<Rightarrow> 'a list" where
  \<comment> \<open>the entries at the positions where the boolean array is true, in order\<close>
  "select xs m = map fst (filter snd (zip xs m))"

fun col_select :: "column \<Rightarrow> bool list \<Rightarrow> column" where
  "col_select (NumCol xs) m = NumCol (select xs m)"
| "col_select (StrCol ss) m = StrCol (select ss m)"

definition getitem_mask :: "table \<Rightarrow> bool list \<Rightarrow> error + table" where
  \<comment> \<open>\<^verbatim>\<open>t[mask]\<close>: a new table of the selected rows\<close>
  "getitem_mask t m =
     (if length m \<noteq> len_table t then Inl IndexError
      else Inr (map (\<lambda>(n, c). (n, col_select c m)) t))"

subsection \<open>The projection and filtering cells\<close>

definition projected_columns :: "string list" where
  "projected_columns =
     [''2MASS'', ''RAJ2000'', ''DEJ2000'', ''Jmag'', ''Hmag'', ''Kmag'',
      ''SDSS9'', ''RAdeg'', ''DEdeg'', ''umag'', ''gmag'', ''rmag'',
      ''imag'', ''zmag'', ''cl'']"

definition project :: "table \<Rightarrow> error + table" where
  "project t = getitem_names t projected_columns"

definition add_colours :: "table \<Rightarrow> error + table" where
  \<comment> \<open>the two assignments of the colour columns\<close>
  "add_colours t =
     and_then (getitem t ''Jmag'') (\<lambda>j.
     and_then (getitem t ''Hmag'') (\<lambda>h.
     and_then (col_sub j h) (\<lambda>jh.
     and_then (setitem t ''J-H'' jh) (\<lambda>t1.
     and_then (getitem t1 ''Hmag'') (\<lambda>h1.
     and_then (getitem t1 ''Kmag'') (\<lambda>k.
     and_then (col_sub h1 k) (\<lambda>hk.
     setitem t1 ''H-K'' hk)))))))"

definition criteria :: "table \<Rightarrow> error + bool list" where
  \<comment> \<open>the right-hand side of \<^verbatim>\<open>index_bd = ...\<close>, operands evaluated left to right\<close>
  "criteria t =
     and_then (getitem t ''umag'') (\<lambda>u.
     and_then (col_gt u lit_22_0) (\<lambda>a.
     and_then (getitem t ''gmag'') (\<lambda>g.
     and_then (col_gt g lit_22_2) (\<lambda>b.
     and_then (mask_and a b) (\<lambda>ab.
     and_then (getitem t ''J-H'') (\<lambda>jh.
     and_then (col_lt jh lit_0_3) (\<lambda>c.
     and_then (mask_and ab c) (\<lambda>abc.
     and_then (getitem t ''H-K'') (\<lambda>hk.
     and_then (col_lt hk lit_0_3) (\<lambda>d.
     mask_and abc d))))))))))"

definition run_filter :: "table \<Rightarrow> error + table \<times> bool list \<times> table" where
  \<comment> \<open>the four statements before the \<^verbatim>\<open>print\<close>: the values of \<^verbatim>\<open>sdss_mass\<close> (extended
      in place), \<^verbatim>\<open>index_bd\<close> and \<^verbatim>\<open>candidates\<close> afterwards\<close>
  "run_filter t =
     and_then (add_colours t) (\<lambda>t2.
     and_then (criteria t2) (\<lambda>m.
     and_then (getitem_mask t2 m) (\<lambda>c. Inr (t2, m, c))))"

definition candidate_filter :: "table \<Rightarrow> error + table" where
  \<comment> \<open>the table bound to \<^verbatim>\<open>candidates\<close>\<close>
  "candidate_filter t = and_then (run_filter t) (\<lambda>(t2, m, c). Inr c)"

subsection \<open>The cells as steps of the notebook's state\<close>

record notebook =
  sdss_mass :: table
  index_bd :: "bool list option"
  candidates :: "table option"
  stdout :: "string list"

fun str_nat :: "nat \<Rightarrow> string" where
  \<comment> \<open>\<^verbatim>\<open>'{}'.format(n)\<close> for a length\<close>
  "str_nat n =
     (if n < 10 then [char_of (48 + n)]
      else str_nat (n div 10) @ [char_of (48 + n mod 10)])"

declare str_nat.simps [simp del]

definition print_line :: "string \<Rightarrow> notebook \<Rightarrow> notebook" where
  "print_line msg s = s\<lparr>stdout := stdout s @ [msg]\<rparr>"

definition project_cell :: "notebook \<Rightarrow> error + notebook" where
  "project_cell s =
     and_then (project (sdss_mass s)) (\<lambda>t.
     Inr (print_line (''We are currently working with '' @ str_nat (len_table t) @ '' sources'')
            (s\<lparr>sdss_mass := t\<rparr>)))"

definition filter_cell :: "notebook \<Rightarrow> error + notebook" where
  \<comment> \<open>an exception aborts the cell, and what an aborted cell leaves behind is not modelled\<close>
  "filter_cell s =
     and_then (run_filter (sdss_mass s)) (\<lambda>(t2, m, c).
     Inr (print_line (''We have '' @ str_nat (len_table c) @ '' candidates for Brown Dwarfs'')
            (s\<lparr>sdss_mass := t2, index_bd := Some m, candidates := Some c\<rparr>)))"

subsection \<open>Rows\<close>

text \<open>
  The claims speak of rows. Row \<open>i\<close> of a table pairs each column name with the
  column's \<open>i\<close>-th entry, in column order.
\<close>

type_synonym row = "(string \<times> cell) list"

definition row_at :: "table \<Rightarrow> nat \<Rightarrow> row" where
  "row_at t i = map (\<lambda>(n, c). (n, cells c ! i)) t"

definition rows_of :: "table \<Rightarrow> row list" where
  "rows_of t = map (row_at t) [0..<len_table t]"

definition row_num :: "row \<Rightarrow> string \<Rightarrow> rat option" where
  "row_num r name = (case map_of r name of Some (Num x) \<Rightarrow> Some x | _ \<Rightarrow> None)"

definition spec_predicate :: "row \<Rightarrow> bool" where
  \<comment> \<open>the specification's row predicate:
      \<^verbatim>\<open>umag > 22.0 and gmag > 22.2 and (Jmag - Hmag) < 0.3 and (Hmag - Kmag) < 0.3\<close>\<close>
  "spec_predicate r =
     (case row_num r ''umag'' of None \<Rightarrow> False | Some u \<Rightarrow>
     (case row_num r ''gmag'' of None \<Rightarrow> False | Some g \<Rightarrow>
     (case row_num r ''Jmag'' of None \<Rightarrow> False | Some j \<Rightarrow>
     (case row_num r ''Hmag'' of None \<Rightarrow> False | Some h \<Rightarrow>
     (case row_num r ''Kmag'' of None \<Rightarrow> False | Some k \<Rightarrow>
        lit_22_0 < u \<and> lit_22_2 < g \<and> py_sub j h < lit_0_3 \<and> py_sub h k < lit_0_3)))))"

definition with_colours :: "row \<Rightarrow> row" where
  \<comment> \<open>the row with its two derived columns \<^verbatim>\<open>J-H\<close> and \<^verbatim>\<open>H-K\<close>\<close>
  "with_colours r =
     (case row_num r ''Jmag'' of None \<Rightarrow> r | Some j \<Rightarrow>
     (case row_num r ''Hmag'' of None \<Rightarrow> r | Some h \<Rightarrow>
     (case row_num r ''Kmag'' of None \<Rightarrow> r | Some k \<Rightarrow>
        put_col (put_col r ''J-H'' (Num (py_sub j h))) ''H-K'' (Num (py_sub h k)))))"

definition drop_colours :: "row \<Rightarrow> row" where
  "drop_colours r = filter (\<lambda>(n, v). n \<noteq> ''J-H'' \<and> n \<noteq> ''H-K'') r"

definition is_num_col :: "table \<Rightarrow> string \<Rightarrow> bool" where
  "is_num_col t n = (case map_of t n of Some (NumCol xs) \<Rightarrow> True | _ \<Rightarrow> False)"

definition has_magnitudes :: "table \<Rightarrow> bool" where
  \<comment> \<open>the five magnitude columns the filter reads are there and numeric\<close>
  "has_magnitudes t = list_all (is_num_col t) [''umag'', ''gmag'', ''Jmag'', ''Hmag'', ''Kmag'']"

subsection \<open>Concrete tables\<close>

text \<open>
  A projected table of three sources. The first has the magnitudes of the specification's
  end-to-end scenario, the second those of its counter-scenario (\<^verbatim>\<open>gmag = 22.0\<close>), the
  third is too red in \<^verbatim>\<open>J-H\<close>. Decimal values are the floats Python reads them as.
\<close>

definition example_table :: table where
  "example_table =
     [(''2MASS'', StrCol [''08304878+0128311'', ''08301203+0131077'', ''08295310+0126480'']),
      (''RAJ2000'', NumCol [f64 (127703275 / 1000000), f64 (127550125 / 1000000), f64 (127471250 / 1000000)]),
      (''DEJ2000'', NumCol [f64 (1475306 / 1000000), f64 (1518806 / 1000000), f64 (1446667 / 1000000)]),
      (''Jmag'', NumCol [f64 15, f64 15, f64 (162 / 10)]),
      (''Hmag'', NumCol [f64 (148 / 10), f64 (148 / 10), f64 (155 / 10)]),
      (''Kmag'', NumCol [f64 (147 / 10), f64 (147 / 10), f64 (152 / 10)]),
      (''SDSS9'', StrCol [''J083048.80+012831.1'', ''J083012.03+013107.7'', ''J082953.10+012648.0'']),
      (''RAdeg'', NumCol [f64 (127703341 / 1000000), f64 (127550130 / 1000000), f64 (127471262 / 1000000)]),
      (''DEdeg'', NumCol [f64 (1475311 / 1000000), f64 (1518799 / 1000000), f64 (1446671 / 1000000)]),
      (''umag'', NumCol [f64 (231 / 10), f64 (231 / 10), f64 24]),
      (''gmag'', NumCol [f64 (225 / 10), f64 22, f64 23]),
      (''rmag'', NumCol [f64 (2213 / 100), f64 (2150 / 100), f64 (2207 / 100)]),
      (''imag'', NumCol [f64 (2004 / 100), f64 (2101 / 100), f64 (2120 / 100)]),
      (''zmag'', NumCol [f64 (1789 / 100), f64 (2050 / 100), f64 (2060 / 100)]),
      (''cl'', NumCol [3, 6, 6])]"

definition xmatch_example :: table where
  \<comment> \<open>a cross-match result before the projection: more columns, in another order\<close>
  "xmatch_example =
     (''angDist'', NumCol [f64 (24 / 100), f64 (3 / 100), f64 (5 / 100)]) # rev example_table @
     [(''e_umag'', NumCol [f64 (61 / 100), f64 (55 / 100), f64 (92 / 100)])]"

definition empty_table :: table where
  \<comment> \<open>the projected schema with no rows\<close>
  "empty_table =
     [(''2MASS'', StrCol []), (''RAJ2000'', NumCol []), (''DEJ2000'', NumCol []),
      (''Jmag'', NumCol []), (''Hmag'', NumCol []), (''Kmag'', NumCol []),
      (''SDSS9'', StrCol []), (''RAdeg'', NumCol []), (''DEdeg'', NumCol []),
      (''umag'', NumCol []), (''gmag'', NumCol []), (''rmag'', NumCol []),
      (''imag'', NumCol []), (''zmag'', NumCol []), (''cl'', NumCol [])]"

definition filter_reads :: "string list" where
  \<comment> \<open>the column names the filtering cell looks up, in the order of the lookups\<close>
  "filter_reads = [''Jmag'', ''Hmag'', ''Hmag'', ''Kmag'', ''umag'', ''gmag'', ''J-H'', ''H-K'']"

definition no_key_error :: "error + 'a \<Rightarrow> bool" where
  "no_key_error r = (case r of Inl (KeyError n) \<Rightarrow> False | _ \<Rightarrow> True)"

definition empty_notebook :: notebook where
  "empty_notebook = \<lparr>sdss_mass = empty_table, index_bd = None, candidates = None, stdout = []\<rparr>"

section \<open>Helper lemmas\<close>

subsection \<open>When the operations return\<close>

lemma and_then_Inr_iff:
  "(and_then m f = Inr y) = (\<exists>x. m = Inr x \<and> f x = Inr y)"
  by (cases m) (simp_all add: and_then_def)

lemma and_then_Inr [simp]: "and_then (Inr x) f = f x"
  by (simp add: and_then_def)

lemma and_then_Inl [simp]: "and_then (Inl e) f = Inl e"
  by (simp add: and_then_def)

lemma getitem_Inr_iff: "(getitem t n = Inr c) = (map_of t n = Some c)"
  by (simp add: getitem_def split: option.splits)

lemma col_sub_Inr_iff:
  "(col_sub a b = Inr c) =
   (\<exists>xs ys. a = NumCol xs \<and> b = NumCol ys \<and> length xs = length ys \<and>
            c = NumCol (map2 py_sub xs ys))"
  by (cases a; cases b) auto

lemma col_gt_Inr_iff: "(col_gt a x = Inr m) = (\<exists>xs. a = NumCol xs \<and> m = map (\<lambda>v. x < v) xs)"
  by (cases a) auto

lemma col_lt_Inr_iff: "(col_lt a x = Inr m) = (\<exists>xs. a = NumCol xs \<and> m = map (\<lambda>v. v < x) xs)"
  by (cases a) auto

lemma mask_and_Inr_iff:
  "(mask_and a b = Inr m) = (length a = length b \<and> m = map2 (\<and>) a b)"
  by (auto simp: mask_and_def)

lemma setitem_Inr_iff:
  "(setitem t n c = Inr t') = ((t = [] \<or> col_len c = len_table t) \<and> t' = put_col t n c)"
  by (auto simp: setitem_def)

lemma getitem_mask_Inr_iff:
  "(getitem_mask t m = Inr c) =
   (length m = len_table t \<and> c = map (\<lambda>(n, col). (n, col_select col m)) t)"
  by (auto simp: getitem_mask_def)

lemma col_len_cells: "col_len c = length (cells c)"
  by (cases c) simp_all

lemma map_of_put_col: "map_of (put_col t n c) = (map_of t)(n \<mapsto> c)"
proof (cases "n \<in> set (map fst t)")
  case True
  have "map_of (map (\<lambda>(k, v). if k = n then (k, c) else (k, v)) t) x =
        (if x = n then map_option (\<lambda>_. c) (map_of t n) else map_of t x)" for x
    by (induction t) auto
  moreover from True obtain v where "map_of t n = Some v"
    by (cases "map_of t n") (auto simp: map_of_eq_None_iff)
  ultimately show ?thesis using True by (auto simp: put_col_def fun_eq_iff)
next
  case False
  then have "map_of t n = None" by (simp add: map_of_eq_None_iff)
  with False show ?thesis
    by (auto simp: put_col_def fun_eq_iff map_add_def split: option.splits)
qed

lemma names_put_col:
  "map fst (put_col t n c) = (if n \<in> set (map fst t) then map fst t else map fst t @ [n])"
  by (auto simp: put_col_def case_prod_unfold)

lemma wf_lookup_len: "wf_table t \<Longrightarrow> map_of t n = Some c \<Longrightarrow> col_len c = len_table t"
  by (auto simp: wf_table_def list_all_iff dest!: map_of_SomeD)

lemma len_table_put_col:
  "t \<noteq> [] \<Longrightarrow> col_len c = len_table t \<Longrightarrow> len_table (put_col t n c) = len_table t"
  by (cases t) (auto simp: put_col_def len_table_def split: if_splits)

lemma wf_put_col:
  assumes "wf_table t" "t \<noteq> []" "col_len c = len_table t"
  shows "wf_table (put_col t n c)"
proof -
  have l: "len_table (put_col t n c) = len_table t"
    using assms by (simp add: len_table_put_col)
  have d: "distinct (map fst (put_col t n c))"
    using assms(1) by (auto simp: names_put_col wf_table_def colnames_def)
  have "list_all (\<lambda>(k, v). col_len v = len_table t) (put_col t n c)"
    using assms(1,3) by (auto simp: put_col_def wf_table_def list_all_iff split: if_splits)
  with l d show ?thesis by (simp add: wf_table_def colnames_def)
qed

lemma row_at_put_col: "row_at (put_col t n c) i = put_col (row_at t i) n (cells c ! i)"
  by (auto simp: put_col_def row_at_def case_prod_unfold image_iff)

lemma map_of_row_at: "map_of (row_at t i) n = map_option (\<lambda>c. cells c ! i) (map_of t n)"
  by (simp add: row_at_def map_of_map)

subsection \<open>Selection by a boolean array\<close>

lemma select_append:
  "length xs = length m \<Longrightarrow> select (xs @ ys) (m @ bs) = select xs m @ select ys bs"
  by (simp add: select_def)

lemma select_nth:
  "length xs = length m \<Longrightarrow> select xs m = map ((!) xs) (filter ((!) m) [0..<length m])"
proof (induction m arbitrary: xs rule: rev_induct)
  case Nil
  then show ?case by (simp add: select_def)
next
  case (snoc b m)
  then obtain x xs' where xs: "xs = xs' @ [x]" and len: "length xs' = length m"
    by (cases xs rule: rev_cases) auto
  have a: "filter ((!) (m @ [b])) [0..<length m] = filter ((!) m) [0..<length m]"
    by (rule filter_cong) (auto simp: nth_append)
  have b: "map ((!) (xs' @ [x])) (filter ((!) m) [0..<length m]) =
           map ((!) xs') (filter ((!) m) [0..<length m])"
    by (rule map_cong) (auto simp: nth_append len)
  have c: "select [x] [b] = (if b then [x] else [])"
    by (simp add: select_def)
  have "filter ((!) (m @ [b])) [0..<length (m @ [b])] =
        filter ((!) m) [0..<length m] @ (if b then [length m] else [])"
    using a by simp
  then have "map ((!) (xs' @ [x])) (filter ((!) (m @ [b])) [0..<length (m @ [b])]) =
        map ((!) xs') (filter ((!) m) [0..<length m]) @ (if b then [x] else [])"
    using b len nth_append_length [of xs' x] by (simp del: upt_Suc)
  moreover have "select (xs' @ [x]) (m @ [b]) = select xs' m @ (if b then [x] else [])"
    using len by (simp add: select_append c)
  ultimately show ?case
    using snoc.IH [OF len] by (simp only: xs)
qed

lemma select_map: "select (map f xs) m = map f (select xs m)"
  by (simp add: select_def zip_map1 filter_map comp_def case_prod_unfold)

lemma cells_col_select: "cells (col_select c m) = select (cells c) m"
  by (cases c) (simp_all add: select_map)

lemma select_all_True:
  "length xs = length m \<Longrightarrow> \<forall>b \<in> set m. b \<Longrightarrow> select xs m = xs"
  by (induction xs m rule: list_induct2) (auto simp: select_def)

lemma col_select_all_True:
  "col_len c = length m \<Longrightarrow> \<forall>b \<in> set m. b \<Longrightarrow> col_select c m = c"
  by (cases c) (simp_all add: select_all_True)

lemma wf_all_len: "wf_table t \<Longrightarrow> (n, c) \<in> set t \<Longrightarrow> length (cells c) = len_table t"
  by (auto simp: wf_table_def list_all_iff col_len_cells)

lemma rows_of_getitem_mask:
  assumes wf: "wf_table t" and len: "length m = len_table t"
    and c: "c = map (\<lambda>(n, col). (n, col_select col m)) t"
  shows "rows_of c = map (row_at t) (filter ((!) m) [0..<length m])"
proof (cases t)
  case Nil
  with len c show ?thesis by (simp add: rows_of_def len_table_def)
next
  case (Cons p t')
  let ?idx = "filter ((!) m) [0..<length m]"
  have sel: "cells (col_select col m) = map ((!) (cells col)) ?idx" if "(n, col) \<in> set t" for n col
    using wf_all_len [OF wf that] len by (simp add: cells_col_select select_nth)
  obtain n0 c0 where p: "p = (n0, c0)" by (cases p)
  have "len_table c = length (cells (col_select c0 m))"
    by (simp add: c Cons p len_table_def col_len_cells)
  also have "\<dots> = length ?idx"
    using sel [of n0 c0] by (simp add: Cons p)
  finally have lc: "len_table c = length ?idx" .
  have row: "row_at c j = row_at t (?idx ! j)" if "j < length ?idx" for j
    using that sel by (auto simp: row_at_def c)
  have "rows_of c = map (\<lambda>j. row_at t (?idx ! j)) [0..<length ?idx]"
    unfolding rows_of_def lc by (rule map_cong) (auto simp: row)
  also have "\<dots> = map (row_at t) ?idx"
    by (simp add: map_nth flip: map_map [of "row_at t" "(!) ?idx", unfolded comp_def])
  finally show ?thesis .
qed

subsection \<open>The filter, statement by statement\<close>

lemma add_colours_Inr:
  assumes wf: "wf_table t" and ac: "add_colours t = Inr t2"
  obtains j h k where
    "map_of t ''Jmag'' = Some (NumCol j)" "map_of t ''Hmag'' = Some (NumCol h)"
    "map_of t ''Kmag'' = Some (NumCol k)"
    "length j = len_table t" "length h = len_table t" "length k = len_table t"
    "t2 = put_col (put_col t ''J-H'' (NumCol (map2 py_sub j h))) ''H-K''
            (NumCol (map2 py_sub h k))"
proof -
  from ac obtain j h t1 h1 k where
    j: "map_of t ''Jmag'' = Some (NumCol j)" and h: "map_of t ''Hmag'' = Some (NumCol h)"
    and jh: "length j = length h"
    and t1: "t1 = put_col t ''J-H'' (NumCol (map2 py_sub j h))"
    and h1: "map_of t1 ''Hmag'' = Some (NumCol h1)" and k: "map_of t1 ''Kmag'' = Some (NumCol k)"
    and hk: "length h1 = length k"
    and t2: "t2 = put_col t1 ''H-K'' (NumCol (map2 py_sub h1 k))"
    unfolding add_colours_def and_then_Inr_iff getitem_Inr_iff col_sub_Inr_iff setitem_Inr_iff
    by blast
  from h1 h have "h1 = h" by (simp add: t1 map_of_put_col)
  moreover from k have "map_of t ''Kmag'' = Some (NumCol k)" by (simp add: t1 map_of_put_col)
  moreover have "length j = len_table t" "length h = len_table t"
    using wf_lookup_len [OF wf j] wf_lookup_len [OF wf h] by simp_all
  ultimately show ?thesis
    using that [of j h k] j h jh hk t1 t2 by simp
qed

lemma add_colours_wf:
  assumes wf: "wf_table t" and ac: "add_colours t = Inr t2"
  shows "wf_table t2 \<and> len_table t2 = len_table t"
proof -
  from wf ac obtain j h k where
    j: "map_of t ''Jmag'' = Some (NumCol j)"
    and l: "length j = len_table t" "length h = len_table t" "length k = len_table t"
    and t2: "t2 = put_col (put_col t ''J-H'' (NumCol (map2 py_sub j h))) ''H-K''
            (NumCol (map2 py_sub h k))"
    by (rule add_colours_Inr)
  let ?t1 = "put_col t ''J-H'' (NumCol (map2 py_sub j h))"
  from j have ne: "t \<noteq> []" by auto
  have w1: "wf_table ?t1" and l1: "len_table ?t1 = len_table t"
    using wf ne l by (simp_all add: wf_put_col len_table_put_col)
  have ne1: "?t1 \<noteq> []" using ne by (auto simp: put_col_def)
  show ?thesis
    unfolding t2 using w1 l1 ne1 l by (simp add: wf_put_col len_table_put_col)
qed

lemma row_num_row_at:
  "map_of t n = Some (NumCol xs) \<Longrightarrow> i < length xs \<Longrightarrow> row_num (row_at t i) n = Some (xs ! i)"
  by (simp add: row_num_def map_of_row_at)

lemma row_num_put_col_other:
  "n \<noteq> n' \<Longrightarrow> row_num (put_col r n' v) n = row_num r n"
  by (simp add: row_num_def map_of_put_col)

lemma with_colours_row_at:
  assumes wf: "wf_table t" and ac: "add_colours t = Inr t2" and i: "i < len_table t"
  shows "with_colours (row_at t i) = row_at t2 i"
proof -
  from wf ac obtain j h k where
    m: "map_of t ''Jmag'' = Some (NumCol j)" "map_of t ''Hmag'' = Some (NumCol h)"
    "map_of t ''Kmag'' = Some (NumCol k)"
    and l: "length j = len_table t" "length h = len_table t" "length k = len_table t"
    and t2: "t2 = put_col (put_col t ''J-H'' (NumCol (map2 py_sub j h))) ''H-K''
            (NumCol (map2 py_sub h k))"
    by (rule add_colours_Inr)
  have "row_num (row_at t i) ''Jmag'' = Some (j ! i)" "row_num (row_at t i) ''Hmag'' = Some (h ! i)"
    "row_num (row_at t i) ''Kmag'' = Some (k ! i)"
    using m l i by (simp_all add: row_num_row_at)
  then show ?thesis
    using l i by (simp add: with_colours_def t2 row_at_put_col)
qed

lemma criteria_nth:
  assumes wf: "wf_table t" and ac: "add_colours t = Inr t2" and cr: "criteria t2 = Inr m"
  shows "length m = len_table t \<and> (\<forall>i < len_table t. m ! i = spec_predicate (row_at t i))"
proof -
  from wf ac obtain j h k where
    m: "map_of t ''Jmag'' = Some (NumCol j)" "map_of t ''Hmag'' = Some (NumCol h)"
    "map_of t ''Kmag'' = Some (NumCol k)"
    and l: "length j = len_table t" "length h = len_table t" "length k = len_table t"
    and t2: "t2 = put_col (put_col t ''J-H'' (NumCol (map2 py_sub j h))) ''H-K''
            (NumCol (map2 py_sub h k))"
    by (rule add_colours_Inr)
  from cr obtain u g jh hk where
    u: "map_of t2 ''umag'' = Some (NumCol u)" and g: "map_of t2 ''gmag'' = Some (NumCol g)"
    and jh: "map_of t2 ''J-H'' = Some (NumCol jh)" and hk: "map_of t2 ''H-K'' = Some (NumCol hk)"
    and mm: "m = map2 (\<and>) (map2 (\<and>) (map2 (\<and>) (map (\<lambda>v. lit_22_0 < v) u)
               (map (\<lambda>v. lit_22_2 < v) g)) (map (\<lambda>v. v < lit_0_3) jh)) (map (\<lambda>v. v < lit_0_3) hk)"
    and lug: "length u = length g"
    unfolding criteria_def and_then_Inr_iff getitem_Inr_iff col_gt_Inr_iff col_lt_Inr_iff
      mask_and_Inr_iff
    by auto
  have u': "map_of t ''umag'' = Some (NumCol u)" and g': "map_of t ''gmag'' = Some (NumCol g)"
    using u g by (simp_all add: t2 map_of_put_col)
  have jh': "jh = map2 py_sub j h" and hk': "hk = map2 py_sub h k"
    using jh hk by (simp_all add: t2 map_of_put_col)
  have lu: "length u = len_table t" "length g = len_table t"
    using wf_lookup_len [OF wf u'] wf_lookup_len [OF wf g'] by simp_all
  have len: "length m = len_table t"
    using lu l by (simp add: mm jh' hk')
  have "m ! i = spec_predicate (row_at t i)" if "i < len_table t" for i
  proof -
    have "row_num (row_at t i) ''umag'' = Some (u ! i)" "row_num (row_at t i) ''gmag'' = Some (g ! i)"
      "row_num (row_at t i) ''Jmag'' = Some (j ! i)" "row_num (row_at t i) ''Hmag'' = Some (h ! i)"
      "row_num (row_at t i) ''Kmag'' = Some (k ! i)"
      using m u' g' l lu that by (simp_all add: row_num_row_at)
    then show ?thesis
      using that l lu by (simp add: spec_predicate_def mm jh' hk')
  qed
  with len show ?thesis by simp
qed

lemma run_filter_Inr_iff:
  "(run_filter t = Inr (t2, m, c)) =
   (add_colours t = Inr t2 \<and> criteria t2 = Inr m \<and> getitem_mask t2 m = Inr c)"
  by (auto simp: run_filter_def and_then_Inr_iff)

lemma candidate_filter_Inr_iff:
  "(candidate_filter t = Inr c) = (\<exists>t2 m. run_filter t = Inr (t2, m, c))"
  by (auto simp: candidate_filter_def and_then_Inr_iff)

lemma rows_of_candidates:
  assumes wf: "wf_table t" and cf: "candidate_filter t = Inr c"
  shows "rows_of c = map with_colours (filter spec_predicate (rows_of t))"
proof -
  from cf obtain t2 m where ac: "add_colours t = Inr t2" and cr: "criteria t2 = Inr m"
    and gm: "getitem_mask t2 m = Inr c"
    by (auto simp: candidate_filter_Inr_iff run_filter_Inr_iff)
  have wf2: "wf_table t2" and l2: "len_table t2 = len_table t"
    using add_colours_wf [OF wf ac] by simp_all
  have len: "length m = len_table t"
    and nth: "\<And>i. i < len_table t \<Longrightarrow> m ! i = spec_predicate (row_at t i)"
    using criteria_nth [OF wf ac cr] by simp_all
  from gm have c: "c = map (\<lambda>(n, col). (n, col_select col m)) t2"
    by (simp add: getitem_mask_Inr_iff)
  have "rows_of c = map (row_at t2) (filter ((!) m) [0..<length m])"
    using wf2 _ c by (rule rows_of_getitem_mask) (simp add: len l2)
  also have "filter ((!) m) [0..<length m] =
      filter (\<lambda>i. spec_predicate (row_at t i)) [0..<len_table t]"
    unfolding len by (rule filter_cong) (auto simp: nth)
  also have "map (row_at t2) \<dots> = map (\<lambda>i. with_colours (row_at t i)) \<dots>"
    by (rule map_cong) (auto simp: with_colours_row_at [OF wf ac])
  also have "\<dots> = map with_colours (filter spec_predicate (rows_of t))"
    by (simp add: rows_of_def filter_map comp_def)
  finally show ?thesis .
qed

lemma is_num_colD: "is_num_col t n \<Longrightarrow> \<exists>xs. map_of t n = Some (NumCol xs)"
  by (auto simp: is_num_col_def split: option.splits column.splits)

lemma add_colours_succeeds:
  assumes wf: "wf_table t"
    and j: "map_of t ''Jmag'' = Some (NumCol j)" and h: "map_of t ''Hmag'' = Some (NumCol h)"
    and k: "map_of t ''Kmag'' = Some (NumCol k)"
  shows "add_colours t = Inr (put_col (put_col t ''J-H'' (NumCol (map2 py_sub j h))) ''H-K''
            (NumCol (map2 py_sub h k)))"
proof -
  have l: "length j = len_table t" "length h = len_table t" "length k = len_table t"
    using wf_lookup_len [OF wf j] wf_lookup_len [OF wf h] wf_lookup_len [OF wf k] by simp_all
  from j have ne: "t \<noteq> []" by auto
  let ?t1 = "put_col t ''J-H'' (NumCol (map2 py_sub j h))"
  have l1: "len_table ?t1 = len_table t"
    using ne l by (simp add: len_table_put_col)
  show ?thesis
    using j h k l l1 by (simp add: add_colours_def getitem_def setitem_def map_of_put_col)
qed

lemma criteria_succeeds:
  assumes u: "map_of t ''umag'' = Some (NumCol u)" and g: "map_of t ''gmag'' = Some (NumCol g)"
    and jh: "map_of t ''J-H'' = Some (NumCol jh)" and hk: "map_of t ''H-K'' = Some (NumCol hk)"
    and l: "length u = n" "length g = n" "length jh = n" "length hk = n"
  shows "criteria t = Inr (map2 (\<and>) (map2 (\<and>) (map2 (\<and>) (map (\<lambda>v. lit_22_0 < v) u)
               (map (\<lambda>v. lit_22_2 < v) g)) (map (\<lambda>v. v < lit_0_3) jh)) (map (\<lambda>v. v < lit_0_3) hk))"
  using assms by (simp add: criteria_def getitem_def mask_and_def)

lemma run_filter_succeeds:
  assumes wf: "wf_table t" and hm: "has_magnitudes t"
  shows "\<exists>t2 m c. run_filter t = Inr (t2, m, c)"
proof -
  from hm obtain u g j h k where
    u: "map_of t ''umag'' = Some (NumCol u)" and g: "map_of t ''gmag'' = Some (NumCol g)"
    and j: "map_of t ''Jmag'' = Some (NumCol j)" and h: "map_of t ''Hmag'' = Some (NumCol h)"
    and k: "map_of t ''Kmag'' = Some (NumCol k)"
    unfolding has_magnitudes_def by (auto dest!: is_num_colD)
  have l: "length u = len_table t" "length g = len_table t" "length j = len_table t"
    "length h = len_table t" "length k = len_table t"
    using wf_lookup_len [OF wf u] wf_lookup_len [OF wf g] wf_lookup_len [OF wf j]
      wf_lookup_len [OF wf h] wf_lookup_len [OF wf k] by simp_all
  let ?t2 = "put_col (put_col t ''J-H'' (NumCol (map2 py_sub j h))) ''H-K''
            (NumCol (map2 py_sub h k))"
  have ac: "add_colours t = Inr ?t2"
    using wf j h k by (rule add_colours_succeeds)
  have l2: "len_table ?t2 = len_table t"
    using add_colours_wf [OF wf ac] by simp
  have "criteria ?t2 = Inr (map2 (\<and>) (map2 (\<and>) (map2 (\<and>) (map (\<lambda>v. lit_22_0 < v) u)
               (map (\<lambda>v. lit_22_2 < v) g)) (map (\<lambda>v. v < lit_0_3) (map2 py_sub j h)))
               (map (\<lambda>v. v < lit_0_3) (map2 py_sub h k)))"
    by (rule criteria_succeeds [where n = "len_table t"]) (simp_all add: map_of_put_col u g l)
  then obtain m where cr: "criteria ?t2 = Inr m" and lm: "length m = len_table t"
    using l by simp
  have "\<exists>c. getitem_mask ?t2 m = Inr c"
    using lm l2 by (simp add: getitem_mask_def)
  with ac cr show ?thesis
    by (auto simp: run_filter_Inr_iff)
qed

lemma candidate_filter_succeeds:
  "wf_table t \<Longrightarrow> has_magnitudes t \<Longrightarrow> \<exists>c. candidate_filter t = Inr c"
  using run_filter_succeeds [of t] by (auto simp: candidate_filter_Inr_iff)

lemma row_num_with_colours:
  assumes "n \<noteq> ''J-H''" "n \<noteq> ''H-K''"
  shows "row_num (with_colours r) n = row_num r n"
  using assms by (simp add: with_colours_def row_num_put_col_other split: option.splits)

lemma spec_predicate_with_colours: "spec_predicate (with_colours r) = spec_predicate r"
  by (simp add: spec_predicate_def row_num_with_colours cong: option.case_cong)

lemma drop_colours_put_col:
  "n = ''J-H'' \<or> n = ''H-K'' \<Longrightarrow> drop_colours (put_col r n v) = drop_colours r"
proof -
  assume n: "n = ''J-H'' \<or> n = ''H-K''"
  have "filter (\<lambda>(k, v). k \<noteq> ''J-H'' \<and> k \<noteq> ''H-K'')
          (map (\<lambda>(k, c). if k = n then (k, v) else (k, c)) r) =
        filter (\<lambda>(k, v). k \<noteq> ''J-H'' \<and> k \<noteq> ''H-K'') r"
    using n by (induction r) auto
  with n show ?thesis by (auto simp: drop_colours_def put_col_def)
qed

lemma drop_colours_with_colours: "drop_colours (with_colours r) = drop_colours r"
  by (simp add: with_colours_def drop_colours_put_col split: option.splits)

subsection \<open>The filter on its own output\<close>

lemma select_Cons: "select (x # xs) (b # m) = (if b then x # select xs m else select xs m)"
  by (simp add: select_def)

lemma select_Nil [simp]: "select [] m = []" "select xs [] = []"
  by (simp_all add: select_def)

lemma select_zip:
  "length xs = length ys \<Longrightarrow> select (zip xs ys) m = zip (select xs m) (select ys m)"
proof (induction xs ys arbitrary: m rule: list_induct2)
  case Nil
  then show ?case by simp
next
  case (Cons x xs y ys)
  then show ?case by (cases m) (simp_all add: select_Cons)
qed

lemma select_map2:
  "length xs = length ys \<Longrightarrow> select (map2 f xs ys) m = map2 f (select xs m) (select ys m)"
  by (simp add: select_map select_zip)

lemma length_select:
  "length xs = length m \<Longrightarrow> length (select xs m) = length (select m m)"
  by (simp add: select_nth)

lemma select_self_True: "b \<in> set (select m m) \<Longrightarrow> b"
  by (induction m) (auto simp: select_Cons split: if_splits)

lemma put_col_same:
  "distinct (map fst t) \<Longrightarrow> map_of t n = Some c \<Longrightarrow> put_col t n c = t"
proof -
  assume d: "distinct (map fst t)" and m: "map_of t n = Some c"
  then have "n \<in> set (map fst t)"
    by (metis map_of_eq_None_iff option.distinct(1) set_map)
  moreover have "map (\<lambda>(k, v). if k = n then (k, c) else (k, v)) t = t"
  proof (rule map_idI)
    fix p assume "p \<in> set t"
    with d m show "(case p of (k, v) \<Rightarrow> if k = n then (k, c) else (k, v)) = p"
      by (cases p) (auto dest!: map_of_SomeD dest: eq_key_imp_eq_value)
  qed
  ultimately show ?thesis by (simp add: put_col_def)
qed

lemma criteria_Inr:
  assumes cr: "criteria t = Inr m"
  obtains u g jh hk where
    "map_of t ''umag'' = Some (NumCol u)" "map_of t ''gmag'' = Some (NumCol g)"
    "map_of t ''J-H'' = Some (NumCol jh)" "map_of t ''H-K'' = Some (NumCol hk)"
    "m = map2 (\<and>) (map2 (\<and>) (map2 (\<and>) (map (\<lambda>v. lit_22_0 < v) u)
               (map (\<lambda>v. lit_22_2 < v) g)) (map (\<lambda>v. v < lit_0_3) jh)) (map (\<lambda>v. v < lit_0_3) hk)"
proof -
  from cr obtain u g jh hk where
    "map_of t ''umag'' = Some (NumCol u)" "map_of t ''gmag'' = Some (NumCol g)"
    "map_of t ''J-H'' = Some (NumCol jh)" "map_of t ''H-K'' = Some (NumCol hk)"
    "m = map2 (\<and>) (map2 (\<and>) (map2 (\<and>) (map (\<lambda>v. lit_22_0 < v) u)
               (map (\<lambda>v. lit_22_2 < v) g)) (map (\<lambda>v. v < lit_0_3) jh)) (map (\<lambda>v. v < lit_0_3) hk)"
    unfolding criteria_def and_then_Inr_iff getitem_Inr_iff col_gt_Inr_iff col_lt_Inr_iff
      mask_and_Inr_iff
    by auto
  then show ?thesis by (rule that)
qed

lemma map_of_masked:
  "map_of (map (\<lambda>(n, col). (n, col_select col m)) t) n =
   map_option (\<lambda>col. col_select col m) (map_of t n)"
  by (simp add: map_of_map)

lemma col_len_col_select:
  "col_len col = length m \<Longrightarrow> col_len (col_select col m) = length (select m m)"
  by (cases col) (auto intro: length_select)

lemma fst_masked: "fst \<circ> (\<lambda>(n, col). (n, f col)) = fst"
  by auto

lemma wf_masked:
  assumes wf: "wf_table t" and len: "length m = len_table t"
  shows "wf_table (map (\<lambda>(n, col). (n, col_select col m)) t)"
    and "t \<noteq> [] \<Longrightarrow> len_table (map (\<lambda>(n, col). (n, col_select col m)) t) = length (select m m)"
proof -
  let ?c = "map (\<lambda>(n, col). (n, col_select col m)) t"
  have all: "col_len (col_select col m) = length (select m m)" if "(n, col) \<in> set t" for n col
  proof -
    from wf that have "col_len col = len_table t"
      by (auto simp: wf_table_def list_all_iff)
    with len show ?thesis by (simp add: col_len_col_select)
  qed
  show l: "len_table ?c = length (select m m)" if "t \<noteq> []"
  proof -
    from that obtain n col t' where t: "t = (n, col) # t'" by (cases t) auto
    then have "(n, col) \<in> set t" by simp
    from all [OF this] show ?thesis by (simp add: t len_table_def)
  qed
  from wf have d: "distinct (colnames ?c)"
    by (simp add: wf_table_def colnames_def fst_masked)
  show "wf_table ?c"
  proof (cases "t = []")
    case True
    then show ?thesis by (simp add: wf_table_def colnames_def)
  next
    case False
    have "col_len (snd p) = len_table ?c" if "p \<in> set ?c" for p
    proof -
      from that obtain n col where "(n, col) \<in> set t" "p = (n, col_select col m)" by auto
      with all [of n col] l [OF False] show ?thesis by simp
    qed
    with d show ?thesis
      unfolding wf_table_def list_all_iff by (auto simp: case_prod_unfold)
  qed
qed

lemma select_criteria:
  assumes "length u = n" "length g = n" "length jh = n" "length hk = n"
  shows "select (map2 (\<and>) (map2 (\<and>) (map2 (\<and>) (map P u) (map Q g)) (map R jh)) (map S hk)) M =
         map2 (\<and>) (map2 (\<and>) (map2 (\<and>) (map P (select u M)) (map Q (select g M)))
           (map R (select jh M))) (map S (select hk M))"
  using assms by (simp add: select_map select_zip)

lemma drop_colours_row_at:
  assumes "''J-H'' \<notin> set (colnames t)" "''H-K'' \<notin> set (colnames t)"
  shows "drop_colours (row_at t i) = row_at t i"
proof -
  have "\<forall>p \<in> set (row_at t i). fst p \<noteq> ''J-H'' \<and> fst p \<noteq> ''H-K''"
    using assms by (force simp: row_at_def colnames_def)
  then show ?thesis
    unfolding drop_colours_def by (simp add: case_prod_unfold)
qed

subsection \<open>Lookups that cannot fail\<close>

lemma rows_of_empty: "len_table t = 0 \<Longrightarrow> rows_of t = []"
  by (simp add: rows_of_def)

lemma str_nat_0: "str_nat 0 = ''0''"
  by code_simp

lemma getitem_names_Inr:
  "getitem_names t0 ns = Inr t \<Longrightarrow> map fst t = ns \<and> (\<forall>(n, c) \<in> set t. map_of t0 n = Some c)"
  by (induction ns arbitrary: t) (auto simp: and_then_Inr_iff getitem_Inr_iff)

lemma getitem_present: "n \<in> set (colnames t) \<Longrightarrow> \<exists>c. getitem t n = Inr c"
  by (cases "map_of t n") (auto simp: getitem_def colnames_def map_of_eq_None_iff)

lemma no_key_errorD: "no_key_error r \<Longrightarrow> r \<noteq> Inl (KeyError n)"
  by (auto simp: no_key_error_def)

lemma no_key_errorI: "(\<And>n. r \<noteq> Inl (KeyError n)) \<Longrightarrow> no_key_error r"
  by (auto simp: no_key_error_def split: sum.splits error.splits)

lemma no_key_error_and_then:
  "no_key_error m \<Longrightarrow> (\<And>x. m = Inr x \<Longrightarrow> no_key_error (f x)) \<Longrightarrow> no_key_error (and_then m f)"
  by (cases m) (auto simp: no_key_error_def and_then_def)

lemma no_key_error_getitem: "n \<in> set (colnames t) \<Longrightarrow> no_key_error (getitem t n)"
  using getitem_present [of n t] by (auto simp: no_key_error_def)

lemma no_key_error_ops:
  "no_key_error (col_sub a b)" "no_key_error (col_gt a x)" "no_key_error (col_lt a x)"
  "no_key_error (mask_and p q)" "no_key_error (setitem t n a)" "no_key_error (getitem_mask t p)"
  "no_key_error (Inr y)"
  by (cases a; cases b; simp add: no_key_error_def mask_and_def setitem_def getitem_mask_def)+

lemma colnames_setitem:
  "setitem t n c = Inr t' \<Longrightarrow> set (colnames t') = insert n (set (colnames t))"
  by (auto simp: setitem_Inr_iff colnames_def names_put_col)

lemma colnames_add_colours:
  assumes "add_colours t = Inr t2"
  shows "set (colnames t2) = insert ''H-K'' (insert ''J-H'' (set (colnames t)))"
  using assms unfolding add_colours_def and_then_Inr_iff
  by (auto dest!: colnames_setitem)

lemma no_key_error_add_colours:
  assumes "{''Jmag'', ''Hmag'', ''Kmag''} \<subseteq> set (colnames t)"
  shows "no_key_error (add_colours t)"
  unfolding add_colours_def using assms
  by (intro no_key_error_and_then no_key_error_getitem no_key_error_ops)
     (auto dest!: colnames_setitem)

lemma no_key_error_criteria:
  assumes "{''umag'', ''gmag'', ''J-H'', ''H-K''} \<subseteq> set (colnames t)"
  shows "no_key_error (criteria t)"
  unfolding criteria_def using assms
  by (intro no_key_error_and_then no_key_error_getitem no_key_error_ops) auto

lemma no_key_error_run_filter:
  assumes "{''umag'', ''gmag'', ''Jmag'', ''Hmag'', ''Kmag''} \<subseteq> set (colnames t)"
  shows "no_key_error (run_filter t)"
  unfolding run_filter_def using assms
  by (intro no_key_error_and_then no_key_error_add_colours no_key_error_criteria no_key_error_ops)
     (auto dest!: colnames_add_colours)

subsection \<open>Rounding is monotone\<close>

lemma round_half_even_bounds: "\<lfloor>x\<rfloor> \<le> round_half_even x \<and> round_half_even x \<le> \<lfloor>x\<rfloor> + 1"
  by (simp add: round_half_even_def Let_def)

lemma round_half_even_of_int [simp]: "round_half_even (of_int n) = n"
  by (simp add: round_half_even_def)

lemma round_half_even_mono:
  assumes "x \<le> y"
  shows "round_half_even x \<le> round_half_even y"
proof (cases "\<lfloor>x\<rfloor> = \<lfloor>y\<rfloor>")
  case True
  from assms have "x - of_int \<lfloor>x\<rfloor> \<le> y - of_int \<lfloor>x\<rfloor>" by simp
  with True show ?thesis
    by (auto simp: round_half_even_def Let_def)
next
  case False
  with assms have "\<lfloor>x\<rfloor> < \<lfloor>y\<rfloor>"
    by (simp add: floor_mono order.strict_iff_order)
  then show ?thesis
    using round_half_even_bounds [of x] round_half_even_bounds [of y] by linarith
qed

lemma round_half_even_ge: "of_int n \<le> x \<Longrightarrow> n \<le> round_half_even x"
  using round_half_even_mono [of "of_int n" x] by simp

lemma round_half_even_le: "x \<le> of_int n \<Longrightarrow> round_half_even x \<le> n"
  using round_half_even_mono [of x "of_int n"] by simp

lemma of_int_pos_bounds:
  fixes p :: int
  assumes "0 < p"
  shows "(2::rat) powi (bitlen p - 1) \<le> of_int p \<and> of_int p < (2::rat) powi (bitlen p)"
proof -
  from assms have b: "1 \<le> bitlen p"
    by (simp add: bitlen_alt_def)
  from bitlen_bounds [OF assms]
  have "2 ^ nat (bitlen p - 1) \<le> p" "p < 2 ^ nat (bitlen p)" by simp_all
  then have "(of_int (2 ^ nat (bitlen p - 1)) :: rat) \<le> of_int p"
    "(of_int p :: rat) < of_int (2 ^ nat (bitlen p))"
    by (simp_all only: of_int_le_iff of_int_less_iff)
  with b show ?thesis
    by (simp add: power_int_def)
qed

lemma binade_bounds:
  assumes "x \<noteq> 0"
  shows "2 powi (binade x) \<le> \<bar>x\<bar> \<and> \<bar>x\<bar> < 2 powi (binade x + 1)"
proof -
  obtain p q where pq: "quotient_of \<bar>x\<bar> = (p, q)" by (cases "quotient_of \<bar>x\<bar>")
  then have q: "0 < q" and x: "\<bar>x\<bar> = of_int p / of_int q"
    by (simp_all add: quotient_of_denom_pos quotient_of_div)
  from assms have "0 < \<bar>x\<bar>" by simp
  with x q have p: "0 < p"
    by (simp add: zero_less_divide_iff)
  define d where "d = bitlen p - bitlen q"
  note bp = of_int_pos_bounds [OF p] and bq = of_int_pos_bounds [OF q]
  have qpos: "(0::rat) < of_int q" using q by simp
  have lo: "(2::rat) powi (d - 1) * of_int q \<le> of_int p"
  proof -
    have "(2::rat) powi (d - 1) * of_int q \<le> 2 powi (d - 1) * 2 powi (bitlen q)"
      using bq by (intro mult_left_mono) simp_all
    also have "\<dots> = 2 powi (bitlen p - 1)"
      by (simp add: d_def flip: power_int_add)
    finally show ?thesis using bp by simp
  qed
  have hi: "of_int p < (2::rat) powi (d + 1) * of_int q"
  proof -
    have "(of_int p :: rat) < 2 powi (bitlen p)" using bp by simp
    also have "\<dots> = 2 powi (d + 1) * 2 powi (bitlen q - 1)"
      by (simp add: d_def flip: power_int_add)
    also have "\<dots> \<le> 2 powi (d + 1) * of_int q"
      using bq by (intro mult_left_mono) simp_all
    finally show ?thesis .
  qed
  show ?thesis
  proof (cases "of_int p < of_int q * (2::rat) powi d")
    case True
    then have "binade x = d - 1"
      by (simp add: binade_def pq d_def Let_def)
    with lo True qpos show ?thesis
      by (simp add: x pos_le_divide_eq pos_divide_less_eq mult.commute)
  next
    case False
    then have "binade x = d"
      by (simp add: binade_def pq d_def Let_def)
    with hi False qpos show ?thesis
      by (simp add: x pos_le_divide_eq pos_divide_less_eq mult.commute not_less)
  qed
qed

lemma f64_pos_bounds:
  assumes "0 < x"
  shows "2 powi (binade x) \<le> f64 x \<and> f64 x \<le> 2 powi (binade x + 1)"
proof -
  define u :: rat where "u = 2 powi (binade x - 52)"
  have u: "0 < u" by (simp add: u_def)
  from assms have x0: "x \<noteq> 0" by simp
  with assms binade_bounds [of x] have b: "2 powi (binade x) \<le> x" "x < 2 powi (binade x + 1)"
    by simp_all
  have e1: "(2::rat) powi (binade x) = of_int (2 ^ 52) * u"
    by (simp add: u_def power_int_diff)
  have e2: "(2::rat) powi (binade x + 1) = of_int (2 ^ 53) * u"
    by (simp add: u_def power_int_diff power_int_add)
  from b(1) u have "of_int (2 ^ 52) \<le> x / u"
    by (simp only: e1 pos_le_divide_eq)
  then have l: "2 ^ 52 \<le> round_half_even (x / u)"
    by (rule round_half_even_ge)
  from b(2) u have "x / u \<le> of_int (2 ^ 53)"
    by (simp only: e2 pos_divide_le_eq less_imp_le)
  then have h: "round_half_even (x / u) \<le> 2 ^ 53"
    by (rule round_half_even_le)
  have f: "f64 x = of_int (round_half_even (x / u)) * u"
    using x0 by (simp add: f64_def u_def Let_def)
  have "of_int (2 ^ 52) * u \<le> of_int (round_half_even (x / u)) * u"
    using l u by (intro mult_right_mono) (simp_all only: of_int_le_iff less_imp_le)
  moreover have "of_int (round_half_even (x / u)) * u \<le> of_int (2 ^ 53) * u"
    using h u by (intro mult_right_mono) (simp_all only: of_int_le_iff less_imp_le)
  ultimately show ?thesis
    by (simp only: f e1 e2)
qed

lemma f64_mono_pos:
  assumes x: "0 < x" and xy: "x \<le> y"
  shows "f64 x \<le> f64 y"
proof -
  from x xy have y: "0 < y" by simp
  from x y binade_bounds [of x] binade_bounds [of y]
  have b: "2 powi (binade x) \<le> x" "y < 2 powi (binade y + 1)" by simp_all
  with xy have "(2::rat) powi (binade x) < 2 powi (binade y + 1)" by linarith
  then have "binade x < binade y + 1"
    by (metis linorder_not_less one_le_numeral power_int_increasing)
  then consider "binade x = binade y" | "binade x + 1 \<le> binade y" by linarith
  then show ?thesis
  proof cases
    case 1
    define u :: rat where "u = 2 powi (binade x - 52)"
    have u: "0 < u" by (simp add: u_def)
    from xy u have "x / u \<le> y / u" by (simp add: divide_right_mono)
    then have "round_half_even (x / u) \<le> round_half_even (y / u)"
      by (rule round_half_even_mono)
    then have "of_int (round_half_even (x / u)) * u \<le> of_int (round_half_even (y / u)) * u"
      using u by (intro mult_right_mono) simp_all
    then show ?thesis
      using x y 1 by (simp add: f64_def u_def Let_def)
  next
    case 2
    have "f64 x \<le> 2 powi (binade x + 1)" using f64_pos_bounds [OF x] by simp
    also have "\<dots> \<le> 2 powi (binade y)"
      using 2 by (intro power_int_increasing) simp_all
    also have "\<dots> \<le> f64 y" using f64_pos_bounds [OF y] by simp
    finally show ?thesis .
  qed
qed

lemma f64_nonpos: "x \<le> 0 \<Longrightarrow> f64 x \<le> 0"
proof -
  assume x: "x \<le> 0"
  define u :: rat where "u = 2 powi (binade x - 52)"
  have u: "0 < u" by (simp add: u_def)
  from x u have "x / u \<le> of_int 0" by (simp add: divide_le_0_iff)
  then have "round_half_even (x / u) \<le> 0" by (rule round_half_even_le)
  then have "of_int (round_half_even (x / u)) * u \<le> 0"
    using u by (simp add: mult_le_0_iff)
  then show ?thesis by (simp add: f64_def u_def Let_def)
qed

lemma f64_pos: "0 < x \<Longrightarrow> 0 < f64 x"
  using f64_pos_bounds [of x] zero_less_power_int [of "2::rat" "binade x"] by linarith

lemma f64_mono_nonneg:
  assumes "0 \<le> y" "x \<le> y"
  shows "f64 x \<le> f64 y"
proof (cases "0 < x")
  case True
  then show ?thesis using assms by (simp add: f64_mono_pos)
next
  case False
  then have "f64 x \<le> 0" by (simp add: f64_nonpos)
  moreover have "0 \<le> f64 y"
    using assms(1) f64_pos [of y] by (cases "y = 0") (simp_all add: f64_def)
  ultimately show ?thesis by simp
qed

lemma binade_unique:
  assumes "2 powi e \<le> \<bar>x\<bar>" "\<bar>x\<bar> < 2 powi (e + 1)"
  shows "binade x = e"
proof -
  have "(0::rat) < 2 powi e" by simp
  with assms(1) have "0 < \<bar>x\<bar>" by linarith
  then have "x \<noteq> 0" by simp
  from binade_bounds [OF this]
  have b: "2 powi (binade x) \<le> \<bar>x\<bar>" "\<bar>x\<bar> < 2 powi (binade x + 1)" by simp_all
  from assms(1) b(2) have "(2::rat) powi e < 2 powi (binade x + 1)" by linarith
  then have 1: "e < binade x + 1"
    by (metis linorder_not_less one_le_numeral power_int_increasing)
  from assms(2) b(1) have "(2::rat) powi (binade x) < 2 powi (e + 1)" by linarith
  then have 2: "binade x < e + 1"
    by (metis linorder_not_less one_le_numeral power_int_increasing)
  from 1 2 show ?thesis by linarith
qed

lemma lit_0_3_val: "lit_0_3 = 5404319552844595 / 2 ^ 54"
  by code_simp

lemma f64_lit_0_3: "f64 lit_0_3 = lit_0_3"
  by code_simp

lemma f64_just_below_lit_0_3:
  assumes lo: "lit_0_3 - 1 / 2 ^ 55 < a" and hi: "a < lit_0_3"
  shows "f64 a = lit_0_3"
proof -
  from lo hi have a: "1 / 4 \<le> a" "a < 1 / 2" "a \<noteq> 0"
    by (simp_all add: lit_0_3_val)
  have p2: "(2::rat) powi (- 2) = 1 / 4" "(2::rat) powi (- 2 + 1) = 1 / 2"
    by (simp_all add: power_int_def power2_eq_square)
  have "binade a = - 2"
  proof (rule binade_unique)
    from a show "2 powi (- 2) \<le> \<bar>a\<bar>" unfolding p2 by linarith
    from a show "\<bar>a\<bar> < 2 powi (- 2 + 1)" unfolding p2 by linarith
  qed
  moreover have "(2::rat) powi (- 54) = 1 / 2 ^ 54"
    by code_simp
  ultimately have f: "f64 a = of_int (round_half_even (a * 2 ^ 54)) / 2 ^ 54"
    using a(3) by (simp add: f64_def)
  define z where "z = a * 2 ^ 54"
  from lo hi have b: "5404319552844594 + 1 / 2 < z" "z < 5404319552844595"
    by (simp_all add: z_def lit_0_3_val field_simps)
  then have fl: "\<lfloor>z\<rfloor> = 5404319552844594"
    by (intro floor_unique) simp_all
  have "round_half_even z = 5404319552844595"
    using b by (simp add: round_half_even_def fl Let_def)
  then have "f64 a = 5404319552844595 / 2 ^ 54"
    unfolding f z_def [symmetric] by simp
  then show ?thesis
    by (simp only: lit_0_3_val)
qed

lemma colour_below_strict:
  assumes "f64 a < lit_0_3"
  shows "a \<le> lit_0_3 - 1 / 2 ^ 55"
proof (rule ccontr)
  assume n: "\<not> a \<le> lit_0_3 - 1 / 2 ^ 55"
  show False
  proof (cases "a < lit_0_3")
    case True
    with n have "f64 a = lit_0_3" by (intro f64_just_below_lit_0_3) simp_all
    with assms show False by simp
  next
    case False
    then have "f64 lit_0_3 \<le> f64 a"
      by (intro f64_mono_pos) (simp_all add: lit_0_3_val)
    with assms show False by (simp add: f64_lit_0_3)
  qed
qed

lemma f64_below_0_6: "f64 (2 * lit_0_3 - 1 / 2 ^ 54) < f64 (6 / 10)"
  by code_simp

lemma total_colour_below:
  assumes "py_sub j h < lit_0_3" "py_sub h k < lit_0_3"
  shows "j - k < 6 / 10 \<and> py_sub j k < f64 (6 / 10)"
proof -
  have "j - h \<le> lit_0_3 - 1 / 2 ^ 55" "h - k \<le> lit_0_3 - 1 / 2 ^ 55"
    using assms colour_below_strict [of "j - h"] colour_below_strict [of "h - k"]
    unfolding py_sub_def by blast+
  then have le: "j - k \<le> 2 * lit_0_3 - 1 / 2 ^ 54" by simp
  then have 1: "j - k < 6 / 10" by (simp add: lit_0_3_val)
  from le have "f64 (j - k) \<le> f64 (2 * lit_0_3 - 1 / 2 ^ 54)"
    by (intro f64_mono_nonneg) (simp_all add: lit_0_3_val)
  with f64_below_0_6 have "py_sub j k < f64 (6 / 10)"
    by (simp add: py_sub_def)
  with 1 show ?thesis by simp
qed

subsection \<open>The example table\<close>

lemma example_wf: "wf_table example_table"
  by code_simp

lemma example_has_magnitudes: "has_magnitudes example_table"
  by code_simp

section \<open>The candidate filter selects exactly the rows of the predicate\<close>

text \<open>
  Claim C1. On a joined table whose five magnitude columns are numeric, the filter
  returns a table, and a row of the joined table appears in it (with its two derived
  colour columns) if and only if \<^verbatim>\<open>umag > 22.0\<close>, \<^verbatim>\<open>gmag > 22.2\<close>, \<^verbatim>\<open>Jmag - Hmag < 0.3\<close> and
  \<^verbatim>\<open>Hmag - Kmag < 0.3\<close> all hold, each strictly. The output rows are the passing rows, in
  order, each unchanged apart from the two derived columns; a row that fails a conjunct
  is absent.
\<close>

theorem candidates_iff_spec_predicate:
  assumes wf: "wf_table t" and hm: "has_magnitudes t"
  shows "\<exists>c. candidate_filter t = Inr c \<and>
           rows_of c = map with_colours (filter spec_predicate (rows_of t)) \<and>
           (\<forall>r \<in> set (rows_of t).
              (with_colours r \<in> set (rows_of c)) = spec_predicate r \<and>
              drop_colours (with_colours r) = drop_colours r)"
proof -
  from wf hm obtain c where cf: "candidate_filter t = Inr c"
    using candidate_filter_succeeds by blast
  have rows: "rows_of c = map with_colours (filter spec_predicate (rows_of t))"
    using wf cf by (rule rows_of_candidates)
  have "(with_colours r \<in> set (rows_of c)) = spec_predicate r" if "r \<in> set (rows_of t)" for r
  proof
    assume "with_colours r \<in> set (rows_of c)"
    then obtain r' where "spec_predicate r'" "with_colours r' = with_colours r"
      by (auto simp: rows)
    then show "spec_predicate r"
      by (metis spec_predicate_with_colours)
  next
    assume "spec_predicate r"
    with that show "with_colours r \<in> set (rows_of c)" by (auto simp: rows)
  qed
  with cf rows show ?thesis
    by (auto simp: drop_colours_with_colours)
qed

theorem candidates_iff_spec_predicate_witness:
  "wf_table example_table \<and> has_magnitudes example_table \<and>
   map spec_predicate (rows_of example_table) = [True, False, False] \<and>
   map_sum id rows_of (candidate_filter example_table) =
     Inr [with_colours (row_at example_table 0)]"
proof -
  note wf = example_wf and hm = example_has_magnitudes
  from candidates_iff_spec_predicate [OF wf hm] obtain c where
    cf: "candidate_filter example_table = Inr c"
    and rows: "rows_of c = map with_colours (filter spec_predicate (rows_of example_table))"
    by blast
  have sp: "map spec_predicate (rows_of example_table) = [True, False, False]"
    by code_simp
  have "filter spec_predicate (rows_of example_table) = [row_at example_table 0]"
    by code_simp
  with cf rows sp wf hm show ?thesis by simp
qed

section \<open>Filtering twice\<close>

text \<open>
  Claim C3. The filter is idempotent: run on its own output (colour columns computed
  again, the four criteria applied again) it returns that output table unchanged, so
  every row that passed once passes again and the set of rows is the same.
\<close>

theorem candidate_filter_idempotent:
  assumes wf: "wf_table t" and hm: "has_magnitudes t"
  shows "\<exists>c. candidate_filter t = Inr c \<and> candidate_filter c = Inr c \<and>
           set (rows_of c) = set (filter spec_predicate (rows_of c))"
proof -
  from wf hm obtain c where cf: "candidate_filter t = Inr c"
    using candidate_filter_succeeds by blast

  from cf obtain t2 m where ac: "add_colours t = Inr t2" and cr: "criteria t2 = Inr m"
    and gm: "getitem_mask t2 m = Inr c"
    by (auto simp: candidate_filter_Inr_iff run_filter_Inr_iff)
  have wf2: "wf_table t2" and l2: "len_table t2 = len_table t"
    using add_colours_wf [OF wf ac] by simp_all
  from wf ac obtain j h k where
    j: "map_of t ''Jmag'' = Some (NumCol j)" and h: "map_of t ''Hmag'' = Some (NumCol h)"
    and k: "map_of t ''Kmag'' = Some (NumCol k)"
    and l: "length j = len_table t" "length h = len_table t" "length k = len_table t"
    and t2: "t2 = put_col (put_col t ''J-H'' (NumCol (map2 py_sub j h))) ''H-K''
            (NumCol (map2 py_sub h k))"
    by (rule add_colours_Inr)
  from cr obtain u g jh hk where
    u: "map_of t2 ''umag'' = Some (NumCol u)" and g: "map_of t2 ''gmag'' = Some (NumCol g)"
    and jh: "map_of t2 ''J-H'' = Some (NumCol jh)" and hk: "map_of t2 ''H-K'' = Some (NumCol hk)"
    and mm: "m = map2 (\<and>) (map2 (\<and>) (map2 (\<and>) (map (\<lambda>v. lit_22_0 < v) u)
               (map (\<lambda>v. lit_22_2 < v) g)) (map (\<lambda>v. v < lit_0_3) jh)) (map (\<lambda>v. v < lit_0_3) hk)"
    by (rule criteria_Inr)
  have j2: "map_of t2 ''Jmag'' = Some (NumCol j)" and h2: "map_of t2 ''Hmag'' = Some (NumCol h)"
    and k2: "map_of t2 ''Kmag'' = Some (NumCol k)"
    using j h k by (simp_all add: t2 map_of_put_col)
  have jh': "jh = map2 py_sub j h" and hk': "hk = map2 py_sub h k"
    using jh hk by (simp_all add: t2 map_of_put_col)
  have lu: "length u = len_table t" "length g = len_table t"
    using wf_lookup_len [OF wf2 u] wf_lookup_len [OF wf2 g] l2 by simp_all
  have lm: "length m = len_table t"
    using lu l by (simp add: mm jh' hk')
  from gm have c: "c = map (\<lambda>(n, col). (n, col_select col m)) t2"
    by (simp add: getitem_mask_Inr_iff)
  from j2 have ne2: "t2 \<noteq> []" by auto
  have wfc: "wf_table c" and lc: "len_table c = length (select m m)"
    using wf_masked [OF wf2, of m] lm l2 ne2 by (simp_all add: c)
  have sel: "map_of c ''Jmag'' = Some (NumCol (select j m))"
    "map_of c ''Hmag'' = Some (NumCol (select h m))"
    "map_of c ''Kmag'' = Some (NumCol (select k m))"
    "map_of c ''umag'' = Some (NumCol (select u m))"
    "map_of c ''gmag'' = Some (NumCol (select g m))"
    "map_of c ''J-H'' = Some (NumCol (select jh m))"
    "map_of c ''H-K'' = Some (NumCol (select hk m))"
    using j2 h2 k2 u g jh hk by (simp_all add: c map_of_masked)
  have d: "distinct (map fst c)"
    using wfc by (simp add: wf_table_def colnames_def)
  have "add_colours c = Inr (put_col (put_col c ''J-H'' (NumCol (map2 py_sub (select j m) (select h m))))
          ''H-K'' (NumCol (map2 py_sub (select h m) (select k m))))"
    using wfc sel(1-3) by (rule add_colours_succeeds)
  also have "map2 py_sub (select j m) (select h m) = select jh m"
    using l by (simp add: jh' select_map2)
  also have "map2 py_sub (select h m) (select k m) = select hk m"
    using l by (simp add: hk' select_map2)
  also have "put_col c ''J-H'' (NumCol (select jh m)) = c"
    using d sel(6) by (rule put_col_same)
  also have "put_col c ''H-K'' (NumCol (select hk m)) = c"
    using d sel(7) by (rule put_col_same)
  finally have ac': "add_colours c = Inr c" .
  let ?m' = "map2 (\<and>) (map2 (\<and>) (map2 (\<and>) (map (\<lambda>v. lit_22_0 < v) (select u m))
               (map (\<lambda>v. lit_22_2 < v) (select g m))) (map (\<lambda>v. v < lit_0_3) (select jh m)))
               (map (\<lambda>v. v < lit_0_3) (select hk m))"
  have lens: "length (select u m) = length (select m m)" "length (select g m) = length (select m m)"
    "length (select jh m) = length (select m m)" "length (select hk m) = length (select m m)"
    using lu l lm by (auto intro!: length_select simp: jh' hk')
  have cr': "criteria c = Inr ?m'"
    using sel(4-7) lens by (rule criteria_succeeds)
  have lj: "length jh = len_table t" "length hk = len_table t"
    using l by (simp_all add: jh' hk')
  have "select m m = select (map2 (\<and>) (map2 (\<and>) (map2 (\<and>) (map (\<lambda>v. lit_22_0 < v) u)
               (map (\<lambda>v. lit_22_2 < v) g)) (map (\<lambda>v. v < lit_0_3) jh)) (map (\<lambda>v. v < lit_0_3) hk)) m"
    by (rule arg_cong [OF mm, of "\<lambda>x. select x m"])
  also have "\<dots> = ?m'"
    using lu lj by (rule select_criteria)
  finally have "?m' = select m m" by (rule sym)
  then have lm': "length ?m' = len_table c" and tr: "\<forall>b \<in> set ?m'. b"
    using lc select_self_True [of _ m] by auto
  have "map (\<lambda>(n, col). (n, col_select col ?m')) c = c"
  proof (rule map_idI)
    fix p assume p: "p \<in> set c"
    then have "col_len (snd p) = length ?m'"
      using wfc lm' by (auto simp: wf_table_def list_all_iff)
    then show "(case p of (n, col) \<Rightarrow> (n, col_select col ?m')) = p"
      using tr by (cases p) (simp add: col_select_all_True)
  qed
  then have "getitem_mask c ?m' = Inr c"
    using lm' by (simp add: getitem_mask_def)
  with ac' cr' have idem: "candidate_filter c = Inr c"
    by (simp add: candidate_filter_def run_filter_def)
  have "rows_of c = map with_colours (filter spec_predicate (rows_of t))"
    using wf cf by (rule rows_of_candidates)
  then have "\<forall>r \<in> set (rows_of c). spec_predicate r"
    by (auto simp: spec_predicate_with_colours)
  then have "set (rows_of c) = set (filter spec_predicate (rows_of c))"
    by auto
  with cf idem show ?thesis by blast
qed

theorem candidate_filter_idempotent_witness:
  "wf_table example_table \<and> has_magnitudes example_table \<and>
   (\<exists>c. candidate_filter example_table = Inr c \<and> candidate_filter c = Inr c \<and>
        set (rows_of c) = set (filter spec_predicate (rows_of c)))"
proof -
  note wf = example_wf and hm = example_has_magnitudes
  from candidate_filter_idempotent [OF wf hm] wf hm show ?thesis by blast
qed

section \<open>The output is a subsequence of the input\<close>

text \<open>
  Claim C4. The rows of the candidate table, their two derived columns put aside, form
  a subsequence of the rows of the input table: every output row is an input row, the
  surviving rows keep their relative order, and none is repeated or made up. When the
  input has no colour columns yet, as after the projection, the rows compared with are
  the input rows as they stand.
\<close>

theorem candidates_subseq_of_input:
  assumes wf: "wf_table t" and hm: "has_magnitudes t"
  shows "\<exists>c. candidate_filter t = Inr c \<and>
           subseq (map drop_colours (rows_of c)) (map drop_colours (rows_of t)) \<and>
           (''J-H'' \<notin> set (colnames t) \<and> ''H-K'' \<notin> set (colnames t) \<longrightarrow>
              subseq (map drop_colours (rows_of c)) (rows_of t))"
proof -
  from wf hm obtain c where cf: "candidate_filter t = Inr c"
    using candidate_filter_succeeds by blast
  have "map drop_colours (rows_of c) = map drop_colours (filter spec_predicate (rows_of t))"
    by (simp add: rows_of_candidates [OF wf cf] drop_colours_with_colours)
  then have sub: "subseq (map drop_colours (rows_of c)) (map drop_colours (rows_of t))"
    by (simp add: subseq_map)
  have "map drop_colours (rows_of t) = rows_of t"
    if "''J-H'' \<notin> set (colnames t)" "''H-K'' \<notin> set (colnames t)"
    using that by (simp add: rows_of_def drop_colours_row_at)
  with cf sub show ?thesis by auto
qed

theorem candidates_subseq_of_input_witness:
  "wf_table example_table \<and> has_magnitudes example_table \<and>
   ''J-H'' \<notin> set (colnames example_table) \<and> ''H-K'' \<notin> set (colnames example_table) \<and>
   (\<exists>c. candidate_filter example_table = Inr c \<and>
        subseq (map drop_colours (rows_of c)) (rows_of example_table))"
proof -
  note wf = example_wf and hm = example_has_magnitudes
  have n: "''J-H'' \<notin> set (colnames example_table)" "''H-K'' \<notin> set (colnames example_table)"
    by code_simp+
  from candidates_subseq_of_input [OF wf hm] wf hm n show ?thesis by blast
qed

section \<open>An empty table\<close>

text \<open>
  Claim C6. Run on a table with no rows, the filtering cell raises nothing: it binds
  \<^verbatim>\<open>candidates\<close> to a table with no rows and prints a count of zero.
\<close>

theorem empty_table_gives_empty_candidates:
  assumes wf: "wf_table (sdss_mass s)" and hm: "has_magnitudes (sdss_mass s)"
    and emp: "len_table (sdss_mass s) = 0"
  shows "\<exists>c s'. candidate_filter (sdss_mass s) = Inr c \<and> len_table c = 0 \<and> rows_of c = [] \<and>
           filter_cell s = Inr s' \<and> candidates s' = Some c \<and>
           stdout s' = stdout s @ [''We have 0 candidates for Brown Dwarfs'']"
proof -
  let ?t = "sdss_mass s"
  from wf hm obtain t2 m c where rf: "run_filter ?t = Inr (t2, m, c)"
    using run_filter_succeeds by blast
  then have ac: "add_colours ?t = Inr t2" and cr: "criteria t2 = Inr m"
    and gm: "getitem_mask t2 m = Inr c"
    by (simp_all add: run_filter_Inr_iff)
  from rf have cf: "candidate_filter ?t = Inr c"
    by (auto simp: candidate_filter_Inr_iff)
  have wf2: "wf_table t2" and l2: "len_table t2 = 0"
    using add_colours_wf [OF wf ac] emp by simp_all
  from gm have lm: "length m = len_table t2"
    and c: "c = map (\<lambda>(n, col). (n, col_select col m)) t2"
    by (simp_all add: getitem_mask_Inr_iff)
  from wf ac obtain j where "map_of ?t ''Jmag'' = Some (NumCol j)"
    by (rule add_colours_Inr)
  then have "?t \<noteq> []" by auto
  with ac have ne2: "t2 \<noteq> []"
    by (auto elim!: add_colours_Inr [OF wf] simp: put_col_def split: if_splits)
  from lm l2 have m: "m = []" by simp
  have lc: "len_table c = 0"
    using wf_masked(2) [OF wf2 lm ne2] by (simp add: c m)
  then have rows: "rows_of c = []" by (rule rows_of_empty)
  show ?thesis
    using cf lc rows rf by (simp add: filter_cell_def print_line_def str_nat_0)
qed

theorem empty_table_gives_empty_candidates_witness:
  "wf_table (sdss_mass empty_notebook) \<and> has_magnitudes (sdss_mass empty_notebook) \<and>
   len_table (sdss_mass empty_notebook) = 0 \<and>
   (\<exists>c s'. candidate_filter (sdss_mass empty_notebook) = Inr c \<and> len_table c = 0 \<and>
      rows_of c = [] \<and> filter_cell empty_notebook = Inr s' \<and> candidates s' = Some c \<and>
      stdout s' = stdout empty_notebook @ [''We have 0 candidates for Brown Dwarfs''])"
proof -
  have wf: "wf_table (sdss_mass empty_notebook)" by code_simp
  have hm: "has_magnitudes (sdss_mass empty_notebook)" by code_simp
  have emp: "len_table (sdss_mass empty_notebook) = 0" by code_simp
  from empty_table_gives_empty_candidates [OF wf hm emp] wf hm emp show ?thesis by blast
qed

section \<open>Column lookups after the projection\<close>

text \<open>
  Claim C10, as amended. The projection leaves exactly the fifteen projected columns.
  The five catalogue columns the filter reads (\<^verbatim>\<open>umag\<close>, \<^verbatim>\<open>gmag\<close>, \<^verbatim>\<open>Jmag\<close>, \<^verbatim>\<open>Hmag\<close>,
  \<^verbatim>\<open>Kmag\<close>) are among them. The two derived columns \<^verbatim>\<open>J-H\<close> and \<^verbatim>\<open>H-K\<close> are not: the
  filter adds them itself before it reads them. So no column lookup of the filter
  raises \<^verbatim>\<open>KeyError\<close>.
\<close>

theorem filter_lookups_succeed_after_projection:
  assumes "project t0 = Inr t"
  shows "colnames t = projected_columns \<and>
         {''umag'', ''gmag'', ''Jmag'', ''Hmag'', ''Kmag''} \<subseteq> set (colnames t) \<and>
         (\<forall>t2. add_colours t = Inr t2 \<longrightarrow> {''J-H'', ''H-K''} \<subseteq> set (colnames t2)) \<and>
         (\<forall>n. run_filter t \<noteq> Inl (KeyError n)) \<and>
         (\<forall>n. candidate_filter t \<noteq> Inl (KeyError n))"
proof -
  from assms have n: "colnames t = projected_columns"
    by (auto simp: project_def colnames_def dest!: getitem_names_Inr)
  then have sub: "{''umag'', ''gmag'', ''Jmag'', ''Hmag'', ''Kmag''} \<subseteq> set (colnames t)"
    by (simp add: projected_columns_def)
  then have nk: "no_key_error (run_filter t)" by (rule no_key_error_run_filter)
  then have nk': "no_key_error (candidate_filter t)"
    unfolding candidate_filter_def
    by (intro no_key_error_and_then) (auto simp: no_key_error_def)
  from nk nk' have "\<forall>n. run_filter t \<noteq> Inl (KeyError n)"
    "\<forall>n. candidate_filter t \<noteq> Inl (KeyError n)"
    by (auto dest: no_key_errorD)
  with n sub show ?thesis
    by (auto dest!: colnames_add_colours)
qed

theorem filter_lookups_succeed_after_projection_witness:
  "project xmatch_example = Inr example_table \<and>
   colnames example_table = projected_columns \<and>
   {''umag'', ''gmag'', ''Jmag'', ''Hmag'', ''Kmag''} \<subseteq> set (colnames example_table) \<and>
   no_key_error (run_filter example_table) \<and> no_key_error (candidate_filter example_table)"
proof -
  have p: "project xmatch_example = Inr example_table" by code_simp
  note r = filter_lookups_succeed_after_projection [OF p]
  from r have a: "colnames example_table = projected_columns"
    and b: "{''umag'', ''gmag'', ''Jmag'', ''Hmag'', ''Kmag''} \<subseteq> set (colnames example_table)"
    by (rule conjunct1, rule conjunct2 [THEN conjunct1])
  from r have "\<forall>n. run_filter example_table \<noteq> Inl (KeyError n)"
    "\<forall>n. candidate_filter example_table \<noteq> Inl (KeyError n)"
    by (rule conjunct2 [THEN conjunct2, THEN conjunct2, THEN conjunct1],
        rule conjunct2 [THEN conjunct2, THEN conjunct2, THEN conjunct2])
  then have c: "no_key_error (run_filter example_table)"
    "no_key_error (candidate_filter example_table)"
    by (simp_all add: no_key_errorI)
  from p a b c show ?thesis by (intro conjI)
qed

text \<open>
  Claim C10 as first stated asks for all seven names, the two derived ones included, in
  the projected schema. The projection of the example gives the fifteen columns, and
  the names the filter reads are not all among them.
\<close>

theorem derived_columns_not_in_projection:
  "project xmatch_example = Inr example_table \<and>
   \<not> set filter_reads \<subseteq> set (colnames example_table)"
  by code_simp

section \<open>The total colour of a candidate\<close>

text \<open>
  Claim C9. Every row of the candidate table has \<^verbatim>\<open>Jmag - Kmag < 0.6\<close>: the two strict
  colour criteria bound the colour from J to K. This holds of the exact difference of
  the two stored magnitudes, and also of the difference as Python would compute it,
  compared with the float \<^verbatim>\<open>0.6\<close>.
\<close>

theorem candidates_total_colour_below_0_6:
  assumes wf: "wf_table t" and hm: "has_magnitudes t"
  shows "\<exists>c. candidate_filter t = Inr c \<and>
           (\<forall>r \<in> set (rows_of c). \<exists>j k.
              row_num r ''Jmag'' = Some j \<and> row_num r ''Kmag'' = Some k \<and>
              j - k < 6 / 10 \<and> py_sub j k < f64 (6 / 10))"
proof -
  from wf hm obtain c where cf: "candidate_filter t = Inr c"
    using candidate_filter_succeeds by blast
  have rows: "rows_of c = map with_colours (filter spec_predicate (rows_of t))"
    using wf cf by (rule rows_of_candidates)
  have "\<exists>j k. row_num r ''Jmag'' = Some j \<and> row_num r ''Kmag'' = Some k \<and>
          j - k < 6 / 10 \<and> py_sub j k < f64 (6 / 10)"
    if "r \<in> set (rows_of c)" for r
  proof -
    from that obtain r0 where r: "r = with_colours r0" and sp: "spec_predicate r0"
      by (auto simp: rows)
    from sp obtain j h k where
      m: "row_num r0 ''Jmag'' = Some j" "row_num r0 ''Hmag'' = Some h" "row_num r0 ''Kmag'' = Some k"
      and c: "py_sub j h < lit_0_3" "py_sub h k < lit_0_3"
      by (auto simp: spec_predicate_def split: option.splits)
    from m have "row_num r ''Jmag'' = Some j" "row_num r ''Kmag'' = Some k"
      by (simp_all add: r row_num_with_colours)
    with total_colour_below [OF c] show ?thesis by simp
  qed
  with cf show ?thesis by blast
qed

theorem candidates_total_colour_below_0_6_witness:
  "wf_table example_table \<and> has_magnitudes example_table \<and>
   (\<exists>c r j k. candidate_filter example_table = Inr c \<and> rows_of c = [r] \<and>
      row_num r ''Jmag'' = Some j \<and> row_num r ''Kmag'' = Some k \<and>
      j - k < 6 / 10 \<and> py_sub j k < f64 (6 / 10))"
proof -
  note wf = example_wf and hm = example_has_magnitudes
  from candidates_total_colour_below_0_6 [OF wf hm] obtain c where
    cf: "candidate_filter example_table = Inr c"
    and all: "\<forall>r \<in> set (rows_of c). \<exists>j k.
              row_num r ''Jmag'' = Some j \<and> row_num r ''Kmag'' = Some k \<and>
              j - k < 6 / 10 \<and> py_sub j k < f64 (6 / 10)"
    by blast
  have "filter spec_predicate (rows_of example_table) = [row_at example_table 0]"
    by code_simp
  then have "rows_of c = [with_colours (row_at example_table 0)]"
    by (simp add: rows_of_candidates [OF wf cf])
  with all cf wf hm show ?thesis by auto
qed

section \<open>The end-to-end scenario\<close>

text \<open>
  Claim C5, as amended. A joined row with \<^verbatim>\<open>umag=23.1\<close>, \<^verbatim>\<open>gmag=22.5\<close>, \<^verbatim>\<open>Jmag=15.0\<close>,
  \<^verbatim>\<open>Hmag=14.8\<close>, \<^verbatim>\<open>Kmag=14.7\<close> satisfies the four criteria and appears in the candidate
  table. Its derived columns are the float differences \<^verbatim>\<open>15.0 - 14.8\<close> and
  \<^verbatim>\<open>14.8 - 14.7\<close>, that is \<open>56294995342131 / 2^48\<close> and \<open>14073748835533 / 2^47\<close>
  (printed \<^verbatim>\<open>0.1999999999999993\<close> and \<^verbatim>\<open>0.10000000000000142\<close>): they are \<open>0.2\<close> and
  \<open>0.1\<close> to within \<open>2 / 10^15\<close>, not exactly.
\<close>

theorem scenario_row_is_candidate:
  assumes wf: "wf_table t" and hm: "has_magnitudes t" and r: "r \<in> set (rows_of t)"
    and u: "row_num r ''umag'' = Some (f64 (231 / 10))"
    and g: "row_num r ''gmag'' = Some (f64 (225 / 10))"
    and j: "row_num r ''Jmag'' = Some (f64 15)"
    and h: "row_num r ''Hmag'' = Some (f64 (148 / 10))"
    and k: "row_num r ''Kmag'' = Some (f64 (147 / 10))"
  shows "\<exists>c. candidate_filter t = Inr c \<and> spec_predicate r \<and>
           with_colours r \<in> set (rows_of c) \<and>
           row_num (with_colours r) ''J-H'' = Some (56294995342131 / 2 ^ 48) \<and>
           row_num (with_colours r) ''H-K'' = Some (14073748835533 / 2 ^ 47) \<and>
           \<bar>56294995342131 / 2 ^ 48 - 2 / 10\<bar> < (2 / 10 ^ 15 :: rat) \<and>
           \<bar>14073748835533 / 2 ^ 47 - 1 / 10\<bar> < (2 / 10 ^ 15 :: rat)"
proof -
  from wf hm obtain c where cf: "candidate_filter t = Inr c"
    using candidate_filter_succeeds by blast
  have rows: "rows_of c = map with_colours (filter spec_predicate (rows_of t))"
    using wf cf by (rule rows_of_candidates)
  have jh: "py_sub (f64 15) (f64 (148 / 10)) = 56294995342131 / 2 ^ 48"
    and hk: "py_sub (f64 (148 / 10)) (f64 (147 / 10)) = 14073748835533 / 2 ^ 47"
    by code_simp+
  have crit: "lit_22_0 < f64 (231 / 10)" "lit_22_2 < f64 (225 / 10)"
    "py_sub (f64 15) (f64 (148 / 10)) < lit_0_3"
    "py_sub (f64 (148 / 10)) (f64 (147 / 10)) < lit_0_3"
    by code_simp+
  have sp: "spec_predicate r"
    using crit by (simp add: spec_predicate_def u g j h k)
  with r have mem: "with_colours r \<in> set (rows_of c)"
    by (simp add: rows)
  have wc: "with_colours r =
      put_col (put_col r ''J-H'' (Num (py_sub (f64 15) (f64 (148 / 10))))) ''H-K''
        (Num (py_sub (f64 (148 / 10)) (f64 (147 / 10))))"
    by (simp add: with_colours_def j h k)
  have "row_num (with_colours r) ''J-H'' = Some (py_sub (f64 15) (f64 (148 / 10)))"
    "row_num (with_colours r) ''H-K'' = Some (py_sub (f64 (148 / 10)) (f64 (147 / 10)))"
    by (simp_all add: wc row_num_def map_of_put_col)
  then have c1: "row_num (with_colours r) ''J-H'' = Some (56294995342131 / 2 ^ 48)"
    and c2: "row_num (with_colours r) ''H-K'' = Some (14073748835533 / 2 ^ 47)"
    by (simp_all only: jh hk)
  have "\<bar>56294995342131 / 2 ^ 48 - 2 / 10\<bar> < (2 / 10 ^ 15 :: rat)"
    "\<bar>14073748835533 / 2 ^ 47 - 1 / 10\<bar> < (2 / 10 ^ 15 :: rat)"
    by simp_all
  with cf sp mem c1 c2 show ?thesis by blast
qed

theorem scenario_row_is_candidate_witness:
  "wf_table example_table \<and> has_magnitudes example_table \<and>
   row_at example_table 0 \<in> set (rows_of example_table) \<and>
   row_num (row_at example_table 0) ''umag'' = Some (f64 (231 / 10)) \<and>
   row_num (row_at example_table 0) ''gmag'' = Some (f64 (225 / 10)) \<and>
   row_num (row_at example_table 0) ''Jmag'' = Some (f64 15) \<and>
   row_num (row_at example_table 0) ''Hmag'' = Some (f64 (148 / 10)) \<and>
   row_num (row_at example_table 0) ''Kmag'' = Some (f64 (147 / 10)) \<and>
   (\<exists>c. candidate_filter example_table = Inr c \<and> spec_predicate (row_at example_table 0) \<and>
      with_colours (row_at example_table 0) \<in> set (rows_of c) \<and>
      row_num (with_colours (row_at example_table 0)) ''J-H'' = Some (56294995342131 / 2 ^ 48) \<and>
      row_num (with_colours (row_at example_table 0)) ''H-K'' = Some (14073748835533 / 2 ^ 47))"
proof -
  note wf = example_wf and hm = example_has_magnitudes
  have r: "row_at example_table 0 \<in> set (rows_of example_table)"
    by (simp add: rows_of_def example_table_def len_table_def)
  have u: "row_num (row_at example_table 0) ''umag'' = Some (f64 (231 / 10))"
    and g: "row_num (row_at example_table 0) ''gmag'' = Some (f64 (225 / 10))"
    and j: "row_num (row_at example_table 0) ''Jmag'' = Some (f64 15)"
    and h: "row_num (row_at example_table 0) ''Hmag'' = Some (f64 (148 / 10))"
    and k: "row_num (row_at example_table 0) ''Kmag'' = Some (f64 (147 / 10))"
    by (simp_all add: row_num_def row_at_def example_table_def)
  from scenario_row_is_candidate [OF wf hm r u g j h k] wf hm r u g j h k
  show ?thesis by blast
qed

text \<open>
  Claim C5 as first stated gives the derived colour \<^verbatim>\<open>J-H\<close> as \<open>0.2\<close>. In the example
  table, whose one candidate is the scenario's row, the column holds another number:
  neither the float \<^verbatim>\<open>0.2\<close> nor the fraction \<open>2/10\<close>.
\<close>

theorem scenario_colour_is_not_0_2:
  "map_sum id (map (\<lambda>r. row_num r ''J-H'') \<circ> rows_of) (candidate_filter example_table) =
     Inr [Some (py_sub (f64 15) (f64 (148 / 10)))] \<and>
   py_sub (f64 15) (f64 (148 / 10)) \<noteq> f64 (2 / 10) \<and>
   py_sub (f64 15) (f64 (148 / 10)) \<noteq> 2 / 10"
  by code_simp

end
